theory Spec2Isabelle
  imports Main "HOL-Library.Char_ord" "HOL-Library.List_Lexorder" "HOL-Library.Sublist"
begin

section \<open>Image dataset viewer: index builder, path sandbox and derivative cache\<close>

text \<open>
  A shallow embedding of \<^verbatim>\<open>src/viewer_colab/server.py\<close>. The plain viewer
  (\<^verbatim>\<open>src/viewer/server.py\<close>) has the same \<^verbatim>\<open>safe_relative\<close>, and its
  \<^verbatim>\<open>load_items\<close> is the same loop without the progress callback and without the
  thumb and display URLs of an item.

  Python strings are modelled as lists of 8-bit characters (the UTF-8 bytes of the
  string). Whitespace and letter case are the ASCII ones.
\<close>

subsection \<open>Strings\<close>

definition is_space :: "char \<Rightarrow> bool" where
  \<comment> \<open>the ASCII characters for which \<^verbatim>\<open>str.isspace\<close> holds\<close>
  "is_space c = (c \<in> set [CHR 0x09, CHR 0x0A, CHR 0x0B, CHR 0x0C, CHR 0x0D,
                            CHR 0x1C, CHR 0x1D, CHR 0x1E, CHR 0x1F, CHR 0x20])"

definition strip :: "string \<Rightarrow> string" where
  "strip s = rev (dropWhile is_space (rev (dropWhile is_space s)))"

fun words_of :: "string \<Rightarrow> string \<Rightarrow> string list" where
  "words_of cur [] = (if cur = [] then [] else [cur])"
| "words_of cur (c # cs) =
     (if is_space c then (if cur = [] then words_of [] cs else cur # words_of [] cs)
      else words_of (cur @ [c]) cs)"

definition py_split :: "string \<Rightarrow> string list" where
  \<comment> \<open>\<^verbatim>\<open>s.split()\<close>: the maximal runs of non-whitespace characters\<close>
  "py_split s = words_of [] s"

definition lower_char :: "char \<Rightarrow> char" where
  "lower_char c =
     (case map_of (zip ''ABCDEFGHIJKLMNOPQRSTUVWXYZ'' ''abcdefghijklmnopqrstuvwxyz'') c of
        Some d \<Rightarrow> d
      | None \<Rightarrow> c)"

definition lower :: "string \<Rightarrow> string" where
  "lower s = map lower_char s"

fun split_on :: "char \<Rightarrow> string \<Rightarrow> string list" where
  "split_on sep [] = [[]]"
| "split_on sep (c # cs) =
     (if c = sep then [] # split_on sep cs
      else (case split_on sep cs of [] \<Rightarrow> [[c]] | w # ws \<Rightarrow> (c # w) # ws))"

fun intercalate :: "string \<Rightarrow> string list \<Rightarrow> string" where
  "intercalate sep [] = []"
| "intercalate sep [w] = w"
| "intercalate sep (w # v # ws) = w @ sep @ intercalate sep (v # ws)"

fun rfind :: "char \<Rightarrow> string \<Rightarrow> nat option" where
  "rfind c [] = None"
| "rfind c (x # xs) =
     (case rfind c xs of
        Some i \<Rightarrow> Some (Suc i)
      | None \<Rightarrow> if x = c then Some 0 else None)"

subsection \<open>Paths (pathlib on POSIX)\<close>

text \<open>
  A \<^verbatim>\<open>pathlib.Path\<close> is its anchor (absolute or not) and its parts below the
  anchor. Parsing a string drops empty and \<^verbatim>\<open>.\<close> segments and keeps
  \<^verbatim>\<open>..\<close> segments, as pathlib does.
\<close>

datatype path = Path (is_absolute: bool) (parts: "string list")

definition Path_of :: "string \<Rightarrow> path" where
  "Path_of s =
     Path (s \<noteq> [] \<and> hd s = CHR ''/'')
          (filter (\<lambda>w. w \<noteq> [] \<and> w \<noteq> ''.'') (split_on CHR ''/'' s))"

definition joinpath :: "path \<Rightarrow> path \<Rightarrow> path" where
  \<comment> \<open>\<^verbatim>\<open>a / b\<close>: an absolute right operand replaces the left one\<close>
  "joinpath a b = (if is_absolute b then b else Path (is_absolute a) (parts a @ parts b))"

definition as_posix :: "path \<Rightarrow> string" where
  "as_posix p =
     (if is_absolute p then ''/'' @ intercalate ''/'' (parts p)
      else if parts p = [] then ''.''
      else intercalate ''/'' (parts p))"

definition path_name :: "path \<Rightarrow> string" where
  \<comment> \<open>\<^verbatim>\<open>p.name\<close>\<close>
  "path_name p = (if parts p = [] then [] else last (parts p))"

definition suffix_of :: "string \<Rightarrow> string" where
  \<comment> \<open>\<^verbatim>\<open>p.suffix\<close>, computed from \<^verbatim>\<open>p.name\<close>\<close>
  "suffix_of n =
     (case rfind CHR ''.'' n of
        None \<Rightarrow> []
      | Some i \<Rightarrow> if 0 < i \<and> i < length n - 1 then drop i n else [])"

definition well_formed :: "path \<Rightarrow> bool" where
  \<comment> \<open>the parts of a path that pathlib has built: not empty, no separator inside\<close>
  "well_formed p = (\<forall>w \<in> set (parts p). w \<noteq> [] \<and> CHR ''/'' \<notin> set w)"

fun strip_prefix :: "string list \<Rightarrow> string list \<Rightarrow> string list option" where
  "strip_prefix [] ys = Some ys"
| "strip_prefix (x # xs) [] = None"
| "strip_prefix (x # xs) (y # ys) = (if x = y then strip_prefix xs ys else None)"

definition relative_to :: "path \<Rightarrow> path \<Rightarrow> path option" where
  \<comment> \<open>\<^verbatim>\<open>target.relative_to(other)\<close>; \<open>None\<close> is the \<^verbatim>\<open>ValueError\<close>\<close>
  "relative_to target other =
     (if is_absolute target \<noteq> is_absolute other then None
      else map_option (Path False) (strip_prefix (parts other) (parts target)))"

subsection \<open>The platform: canonical paths, decoding, JSON parsing\<close>

datatype json =
    JNull
  | JBool bool
  | JInt int
  | JStr string
  | JArr "json list"
  | JObj "(string \<times> json) list"

text \<open>
  What the code takes from the Python library and the operating system is a parameter:
  \<open>resolve\<close> is \<^verbatim>\<open>Path.resolve\<close> (the canonical absolute path, symbolic links
  followed and \<^verbatim>\<open>..\<close> segments removed), \<open>decode_utf8\<close> is the decoding
  \<^verbatim>\<open>read_text(encoding="utf-8")\<close> performs (\<open>None\<close>: \<^verbatim>\<open>UnicodeDecodeError\<close>)
  and \<open>json_loads\<close> is \<^verbatim>\<open>json.loads\<close> (\<open>None\<close>: \<^verbatim>\<open>JSONDecodeError\<close>).
  A JSON number that is a float behaves like \<open>JInt\<close> wherever this code looks at it
  (its truth value, and its lack of \<^verbatim>\<open>get\<close> and \<^verbatim>\<open>split\<close>).
\<close>

record platform =
  resolve :: "path \<Rightarrow> path"
  decode_utf8 :: "string \<Rightarrow> string option"
  json_loads :: "string \<Rightarrow> json option"

subsection \<open>The path sandbox\<close>

definition safe_relative :: "platform \<Rightarrow> path \<Rightarrow> path \<Rightarrow> path option" where
  "safe_relative pf root target =
     (let root' = resolve pf root;
          target' = resolve pf target
      in relative_to target' root')"

definition inside_root :: "path \<Rightarrow> path \<Rightarrow> bool" where
  \<comment> \<open>the specification's words: the canonical result is the root itself or a
      descendant of it\<close>
  "inside_root r t = (t = r \<or> (\<exists>below. below \<noteq> [] \<and> t = joinpath r (Path False below)))"

subsection \<open>The filesystem\<close>

text \<open>
  The filesystem is the list of its entries, each under its canonical absolute path, in
  the order a directory walk meets them. A path is looked up under its canonical form, so
  a symbolic link is known to the model through \<open>resolve\<close> only. File permissions are
  not modelled: every file can be opened.
\<close>

datatype node = Dir | File string

type_synonym fs = "(path \<times> node) list"

datatype error =
    AttributeError
  | TypeError
  | FileNotFoundError
  | IsADirectoryError
  | NotADirectoryError
  | FileExistsError
  | UnicodeDecodeError
  | OSError
  | ImageError

definition path_exists :: "platform \<Rightarrow> fs \<Rightarrow> path \<Rightarrow> bool" where
  \<comment> \<open>\<^verbatim>\<open>p.exists()\<close>: true of a directory as well as of a file\<close>
  "path_exists pf fs p = (map_of fs (resolve pf p) \<noteq> None)"

definition read_text :: "platform \<Rightarrow> fs \<Rightarrow> path \<Rightarrow> error + string" where
  "read_text pf fs p =
     (case map_of fs (resolve pf p) of
        None \<Rightarrow> Inl FileNotFoundError
      | Some Dir \<Rightarrow> Inl IsADirectoryError
      | Some (File bytes) \<Rightarrow>
          (case decode_utf8 pf bytes of
             None \<Rightarrow> Inl UnicodeDecodeError
           | Some text \<Rightarrow> Inr text))"

definition rglob :: "platform \<Rightarrow> fs \<Rightarrow> path \<Rightarrow> path list" where
  \<comment> \<open>\<^verbatim>\<open>root.rglob("*")\<close>: every entry strictly below the root, directories and
      hidden names included, each as \<^verbatim>\<open>root / relative\<close>\<close>
  "rglob pf fs root =
     concat (map (\<lambda>k. case relative_to k (resolve pf root) of
                         None \<Rightarrow> []
                       | Some rel \<Rightarrow> if parts rel = [] then [] else [joinpath root rel])
                 (map fst fs))"

fun universal_newlines :: "string \<Rightarrow> string" where
  \<comment> \<open>text mode: \<^verbatim>\<open>\r\n\<close> and a lone \<^verbatim>\<open>\r\<close> are read as \<^verbatim>\<open>\n\<close>\<close>
  "universal_newlines [] = []"
| "universal_newlines [c] = [if c = CHR 0x0D then CHR 0x0A else c]"
| "universal_newlines (c # d # ds) =
     (if c = CHR 0x0D \<and> d = CHR 0x0A then CHR 0x0A # universal_newlines ds
      else if c = CHR 0x0D then CHR 0x0A # universal_newlines (d # ds)
      else c # universal_newlines (d # ds))"

fun file_lines :: "string \<Rightarrow> string list" where
  \<comment> \<open>the lines a text file handle yields, each with its newline\<close>
  "file_lines [] = []"
| "file_lines (c # cs) =
     (if c = CHR 0x0A then [c] # file_lines cs
      else (case file_lines cs of [] \<Rightarrow> [[c]] | l # ls \<Rightarrow> (c # l) # ls))"

subsection \<open>Items and URLs\<close>

definition IMAGE_EXTS :: "string set" where
  "IMAGE_EXTS = {''.jpg'', ''.jpeg'', ''.png'', ''.webp'', ''.gif''}"

definition THUMB_SUFFIX :: string where
  "THUMB_SUFFIX = ''.thumb.jpg''"

definition DISPLAY_SUFFIX :: string where
  "DISPLAY_SUFFIX = ''.display.jpg''"

definition always_safe :: "char \<Rightarrow> bool" where
  "always_safe c =
     (c \<in> set (''ABCDEFGHIJKLMNOPQRSTUVWXYZ'' @ ''abcdefghijklmnopqrstuvwxyz'' @
                ''0123456789'' @ ''_.-~''))"

definition hexdigit :: "nat \<Rightarrow> char" where
  "hexdigit d = ''0123456789ABCDEF'' ! d"

definition quote :: "string \<Rightarrow> string" where
  \<comment> \<open>\<^verbatim>\<open>urllib.parse.quote\<close> with its default \<^verbatim>\<open>safe="/"\<close>, on the UTF-8 bytes\<close>
  "quote s =
     concat (map (\<lambda>c. if always_safe c \<or> c = CHR ''/'' then [c]
                       else [CHR ''%'', hexdigit (of_char c div 16), hexdigit (of_char c mod 16)])
                 s)"

definition to_file_url :: "path \<Rightarrow> string" where
  "to_file_url rel_path = ''/files/'' @ quote (as_posix rel_path)"

definition to_thumb_url :: "path \<Rightarrow> string" where
  "to_thumb_url rel_path = ''/thumbs/'' @ quote (as_posix rel_path @ THUMB_SUFFIX)"

definition make_thumb_path :: "path \<Rightarrow> path \<Rightarrow> path" where
  "make_thumb_path root rel_path =
     joinpath (joinpath root (Path_of ''.thumbs'')) (Path_of (as_posix rel_path @ THUMB_SUFFIX))"

definition to_display_url :: "path \<Rightarrow> string" where
  "to_display_url rel_path = ''/display/'' @ quote (as_posix rel_path @ DISPLAY_SUFFIX)"

definition make_display_path :: "path \<Rightarrow> path \<Rightarrow> path" where
  "make_display_path root rel_path =
     joinpath (joinpath root (Path_of ''.display'')) (Path_of (as_posix rel_path @ DISPLAY_SUFFIX))"

record tag_slots =
  artist :: json
  copyright :: json
  character :: json
  general :: json

record item =
  name :: string
  image_url :: string
  thumb_url :: string
  display_url :: string
  caption :: string
  tags :: tag_slots

definition make_item :: "path \<Rightarrow> path \<Rightarrow> string \<Rightarrow> tag_slots \<Rightarrow> item" where
  \<comment> \<open>the dictionary both loops append\<close>
  "make_item p rel cap ts =
     \<lparr>name = path_name p, image_url = to_file_url rel, thumb_url = to_thumb_url rel,
      display_url = to_display_url rel, caption = cap, tags = ts\<rparr>"

subsection \<open>Python values\<close>

definition dict_get :: "(string \<times> json) list \<Rightarrow> string \<Rightarrow> json \<Rightarrow> json" where
  \<comment> \<open>\<^verbatim>\<open>d.get(key, default)\<close> of a dictionary\<close>
  "dict_get kvs key dflt = (case map_of kvs key of None \<Rightarrow> dflt | Some v \<Rightarrow> v)"

fun py_get :: "json \<Rightarrow> string \<Rightarrow> json \<Rightarrow> error + json" where
  \<comment> \<open>\<^verbatim>\<open>value.get(key, default)\<close>: only a dictionary has \<^verbatim>\<open>get\<close>\<close>
  "py_get (JObj kvs) key dflt = Inr (dict_get kvs key dflt)"
| "py_get v key dflt = Inl AttributeError"

fun path_of_value :: "json \<Rightarrow> error + path" where
  \<comment> \<open>\<^verbatim>\<open>Path(value)\<close>: only a string is accepted\<close>
  "path_of_value (JStr s) = Inr (Path_of s)"
| "path_of_value v = Inl TypeError"

fun truthy :: "json \<Rightarrow> bool" where
  "truthy JNull = False"
| "truthy (JBool b) = b"
| "truthy (JInt i) = (i \<noteq> 0)"
| "truthy (JStr s) = (s \<noteq> [])"
| "truthy (JArr vs) = (vs \<noteq> [])"
| "truthy (JObj kvs) = (kvs \<noteq> [])"

fun str_split :: "json \<Rightarrow> error + string list" where
  \<comment> \<open>\<^verbatim>\<open>value.split()\<close>: only a string has \<^verbatim>\<open>split\<close>\<close>
  "str_split (JStr s) = Inr (py_split s)"
| "str_split v = Inl AttributeError"

definition split_tags :: "json \<Rightarrow> error + json" where
  "split_tags v =
     (case str_split (if truthy v then v else JStr []) of
        Inl e \<Rightarrow> Inl e
      | Inr ws \<Rightarrow> Inr (JArr (map JStr (filter (\<lambda>t. t \<noteq> []) ws))))"

subsection \<open>The index builder\<close>

definition read_caption :: "platform \<Rightarrow> fs \<Rightarrow> path \<Rightarrow> error + string" where
  \<comment> \<open>\<^verbatim>\<open>caption = ""; if caption_path.exists(): caption = caption_path.read_text(...).strip()\<close>\<close>
  "read_caption pf fs caption_path =
     (if path_exists pf fs caption_path
      then (case read_text pf fs caption_path of Inl e \<Rightarrow> Inl e | Inr text \<Rightarrow> Inr (strip text))
      else Inr [])"

definition manifest_caption ::
  "platform \<Rightarrow> fs \<Rightarrow> path \<Rightarrow> (string \<times> json) list \<Rightarrow> error + string" where
  \<comment> \<open>the caption of a manifest row: \<^verbatim>\<open>caption_path\<close> is taken below the root
      unless absolute, and is not passed through \<^verbatim>\<open>safe_relative\<close>\<close>
  "manifest_caption pf fs root row =
     (case path_of_value (dict_get row ''caption_path'' (JStr [])) of
        Inl e \<Rightarrow> Inl e
      | Inr c0 \<Rightarrow>
          read_caption pf fs (if \<not> is_absolute c0 then joinpath root c0 else c0))"

definition manifest_tags :: "(string \<times> json) list \<Rightarrow> tag_slots" where
  "manifest_tags row =
     \<lparr>artist = dict_get row ''artist'' (JArr []),
      copyright = dict_get row ''copyright'' (JArr []),
      character = dict_get row ''character'' (JArr []),
      general = dict_get row ''general'' (JArr [])\<rparr>"

definition manifest_row :: "platform \<Rightarrow> fs \<Rightarrow> path \<Rightarrow> string \<Rightarrow> error + item option" where
  \<comment> \<open>one pass of the manifest loop: an error aborts the build, \<open>None\<close> is
      \<^verbatim>\<open>continue\<close>, \<open>Some\<close> is the appended item\<close>
  "manifest_row pf fs root line0 =
     (let line = strip line0 in
      if line = [] then Inr None
      else case json_loads pf line of
        None \<Rightarrow> Inr None
      | Some (JObj row) \<Rightarrow>
         (case path_of_value (dict_get row ''image_path'' (JStr [])) of
            Inl e \<Rightarrow> Inl e
          | Inr p0 \<Rightarrow>
             (let img_path = (if \<not> is_absolute p0 then joinpath root p0 else p0) in
              case safe_relative pf root img_path of
                None \<Rightarrow> Inr None
              | Some rel \<Rightarrow>
                 if \<not> path_exists pf fs img_path then Inr None
                 else (case manifest_caption pf fs root row of
                    Inl e \<Rightarrow> Inl e
                  | Inr cap \<Rightarrow> Inr (Some (make_item img_path rel cap (manifest_tags row))))))
      | Some v \<Rightarrow> Inl AttributeError)"

definition empty_tags :: tag_slots where
  "empty_tags = \<lparr>artist = JArr [], copyright = JArr [], character = JArr [], general = JArr []\<rparr>"

definition meta_tags :: "json \<Rightarrow> string \<Rightarrow> error + json" where
  \<comment> \<open>\<^verbatim>\<open>split_tags(meta.get(key))\<close>\<close>
  "meta_tags meta key =
     (case py_get meta key JNull of Inl e \<Rightarrow> Inl e | Inr v \<Rightarrow> split_tags v)"

definition sidecar_tags :: "platform \<Rightarrow> fs \<Rightarrow> path \<Rightarrow> error + tag_slots" where
  \<comment> \<open>only \<^verbatim>\<open>json.JSONDecodeError\<close> is caught; it is raised before any slot is set\<close>
  "sidecar_tags pf fs json_path =
     (if \<not> path_exists pf fs json_path then Inr empty_tags
      else case read_text pf fs json_path of
        Inl e \<Rightarrow> Inl e
      | Inr text \<Rightarrow>
         (case json_loads pf text of
            None \<Rightarrow> Inr empty_tags
          | Some meta \<Rightarrow>
             (case meta_tags meta ''tag_string_artist'' of
                Inl e \<Rightarrow> Inl e
              | Inr a \<Rightarrow>
                 (case meta_tags meta ''tag_string_copyright'' of
                    Inl e \<Rightarrow> Inl e
                  | Inr c \<Rightarrow>
                     (case meta_tags meta ''tag_string_character'' of
                        Inl e \<Rightarrow> Inl e
                      | Inr ch \<Rightarrow>
                         (case meta_tags meta ''tag_string_general'' of
                            Inl e \<Rightarrow> Inl e
                          | Inr g \<Rightarrow>
                              Inr \<lparr>artist = a, copyright = c, character = ch, general = g\<rparr>))))))"

definition scan_entry :: "platform \<Rightarrow> fs \<Rightarrow> path \<Rightarrow> path \<Rightarrow> error + item option" where
  \<comment> \<open>one pass of the scan loop\<close>
  "scan_entry pf fs root p =
     (if lower (suffix_of (path_name p)) \<notin> IMAGE_EXTS then Inr None
      else case safe_relative pf root p of
        None \<Rightarrow> Inr None
      | Some rel \<Rightarrow>
         (case read_caption pf fs (Path_of (as_posix p @ ''.caption.txt'')) of
            Inl e \<Rightarrow> Inl e
          | Inr cap \<Rightarrow>
             (case sidecar_tags pf fs (Path_of (as_posix p @ ''.json'')) of
                Inl e \<Rightarrow> Inl e
              | Inr ts \<Rightarrow> Inr (Some (make_item p rel cap ts)))))"

text \<open>
  Both loops of \<^verbatim>\<open>load_items\<close> have one shape: entries are numbered from 1, a
  skipped entry keeps its number, and after an appended item the progress callback (when
  one is given) is called with the number if it is a multiple of 500. The callback's
  effect is a state \<open>'s\<close> threaded through the loop; an exception ends the loop and
  keeps the state reached.
\<close>

fun index_loop ::
  "('a \<Rightarrow> error + item option) \<Rightarrow> (nat \<Rightarrow> 's \<Rightarrow> 's) option \<Rightarrow> nat \<Rightarrow> 'a list \<Rightarrow>
   item list \<Rightarrow> 's \<Rightarrow> (error + item list) \<times> 's" where
  "index_loop body progress idx [] items s = (Inr items, s)"
| "index_loop body progress idx (x # xs) items s =
     (case body x of
        Inl e \<Rightarrow> (Inl e, s)
      | Inr None \<Rightarrow> index_loop body progress (Suc idx) xs items s
      | Inr (Some it) \<Rightarrow>
          index_loop body progress (Suc idx) xs (items @ [it])
            (case progress of
               Some call \<Rightarrow> if idx mod 500 = 0 then call idx s else s
             | None \<Rightarrow> s))"

definition emitted :: "('a \<Rightarrow> error + item option) \<Rightarrow> 'a \<Rightarrow> item list" where
  \<comment> \<open>what one pass of a loop appends\<close>
  "emitted body x = (case body x of Inr (Some it) \<Rightarrow> [it] | _ \<Rightarrow> [])"

definition sort_items :: "item list \<Rightarrow> item list" where
  \<comment> \<open>\<^verbatim>\<open>items.sort(key=lambda item: item["name"].lower())\<close>, a stable sort\<close>
  "sort_items its = sort_key (\<lambda>it. lower (name it)) its"

definition finish :: "(error + item list) \<times> 's \<Rightarrow> (error + item list) \<times> 's" where
  \<comment> \<open>the sort after a loop; an exception has left the function before it\<close>
  "finish r = (case r of (Inl e, s) \<Rightarrow> (Inl e, s) | (Inr its, s) \<Rightarrow> (Inr (sort_items its), s))"

definition load_items ::
  "platform \<Rightarrow> fs \<Rightarrow> path \<Rightarrow> path option \<Rightarrow> (nat \<Rightarrow> 's \<Rightarrow> 's) option \<Rightarrow> 's \<Rightarrow>
   (error + item list) \<times> 's" where
  \<comment> \<open>the result, and the state the progress callback has left. The manifest is
      decoded as a whole before its lines are processed.\<close>
  "load_items pf fs root index_path progress s =
     (case (case index_path of
              None \<Rightarrow> None
            | Some ip \<Rightarrow> if path_exists pf fs ip then Some ip else None) of
        Some ip \<Rightarrow>
          (case read_text pf fs ip of
             Inl e \<Rightarrow> (Inl e, s)
           | Inr text \<Rightarrow>
               finish (index_loop (manifest_row pf fs root) progress 1
                         (file_lines (universal_newlines text)) [] s))
      | None \<Rightarrow>
          finish (index_loop (scan_entry pf fs root) progress 1 (rglob pf fs root) [] s))"

subsection \<open>The item store and the background build\<close>

record store =
  items :: "item list"
  ready :: bool
  scanned :: nat

definition new_store :: store where
  "new_store = \<lparr>items = [], ready = False, scanned = 0\<rparr>"

definition progress :: "nat \<Rightarrow> store \<Rightarrow> store" where
  \<comment> \<open>\<^verbatim>\<open>def progress(scanned): store.scanned = scanned\<close>\<close>
  "progress n st = st\<lparr>scanned := n\<rparr>"

definition build_items ::
  "platform \<Rightarrow> fs \<Rightarrow> path \<Rightarrow> path option \<Rightarrow> store \<Rightarrow> error option \<times> store" where
  \<comment> \<open>the body of the background thread once the optional prebuild pass, which writes
      nothing into the store, has left the filesystem \<open>fs\<close>; an exception of
      \<^verbatim>\<open>load_items\<close> ends the thread before anything is published\<close>
  "build_items pf fs root index_path st =
     (case load_items pf fs root index_path (Some progress) st of
        (Inl e, st') \<Rightarrow> (Some e, st')
      | (Inr its, st') \<Rightarrow> (None, st'\<lparr>items := its, ready := True\<rparr>))"

definition progress_calls :: "platform \<Rightarrow> fs \<Rightarrow> path \<Rightarrow> path option \<Rightarrow> nat list" where
  \<comment> \<open>the arguments of the callback's calls during one build, in order\<close>
  "progress_calls pf fs root index_path =
     snd (load_items pf fs root index_path (Some (\<lambda>n calls. calls @ [n])) [])"

subsection \<open>The derivative cache\<close>

text \<open>
  The imaging library (Pillow) is a parameter as well: whether it could be imported, how
  it decodes the bytes of a file, what its transformations return, and what saving does.
  \<^verbatim>\<open>image.save(target_path, ...)\<close> opens the target itself and writes into it, so a
  save that raises has left at the target whatever the encoder had written (a truncated
  file, or nothing when the encoder removed it again): \<open>SaveFailed e left\<close>.
\<close>

record image =
  img_mode :: string
  img_size :: "nat \<times> nat"

datatype save_outcome = Saved string | SaveFailed error "string option"

record pil =
  PIL_AVAILABLE :: bool
  decode_image :: "string \<Rightarrow> error + image"
  exif_transpose :: "image \<Rightarrow> error + image"
  flatten_alpha :: "image \<Rightarrow> error + image"
  convert_rgb :: "image \<Rightarrow> error + image"
  thumbnail :: "image \<Rightarrow> nat \<Rightarrow> error + image"
  encode_jpeg :: "image \<Rightarrow> nat \<Rightarrow> save_outcome"

fun put_entry :: "fs \<Rightarrow> path \<Rightarrow> node \<Rightarrow> fs" where
  "put_entry [] k v = [(k, v)]"
| "put_entry ((k', v') # es) k v = (if k' = k then (k, v) # es else (k', v') # put_entry es k v)"

fun mkdir_parents :: "fs \<Rightarrow> string list \<Rightarrow> string list \<Rightarrow> error + fs" where
  \<comment> \<open>\<^verbatim>\<open>mkdir(parents=True, exist_ok=True)\<close> of the directory \<open>done @ todo\<close>: every
      missing ancestor is created; a file in the way is an error\<close>
  "mkdir_parents fs done [] = Inr fs"
| "mkdir_parents fs done (w # ws) =
     (case map_of fs (Path True (done @ [w])) of
        Some (File bytes) \<Rightarrow> Inl (if ws = [] then FileExistsError else NotADirectoryError)
      | Some Dir \<Rightarrow> mkdir_parents fs (done @ [w]) ws
      | None \<Rightarrow> mkdir_parents (fs @ [(Path True (done @ [w]), Dir)]) (done @ [w]) ws)"

definition open_image :: "platform \<Rightarrow> pil \<Rightarrow> fs \<Rightarrow> path \<Rightarrow> error + image" where
  \<comment> \<open>\<^verbatim>\<open>Image.open(source_path)\<close>\<close>
  "open_image pf im fs p =
     (case map_of fs (resolve pf p) of
        None \<Rightarrow> Inl FileNotFoundError
      | Some Dir \<Rightarrow> Inl IsADirectoryError
      | Some (File bytes) \<Rightarrow> decode_image im bytes)"

definition prepare_image :: "pil \<Rightarrow> image \<Rightarrow> nat \<Rightarrow> error + image" where
  \<comment> \<open>orientation, colour mode and size, in the order of the source\<close>
  "prepare_image im image0 max_size =
     (case exif_transpose im image0 of
        Inl e \<Rightarrow> Inl e
      | Inr image1 \<Rightarrow>
         (case (if img_mode image1 \<in> {''RGBA'', ''LA''} then flatten_alpha im image1
                else if img_mode image1 \<noteq> ''RGB'' then convert_rgb im image1
                else Inr image1) of
            Inl e \<Rightarrow> Inl e
          | Inr image2 \<Rightarrow> thumbnail im image2 max_size))"

definition build_resized ::
  "platform \<Rightarrow> pil \<Rightarrow> fs \<Rightarrow> path \<Rightarrow> path \<Rightarrow> nat \<Rightarrow> nat \<Rightarrow> bool \<times> fs" where
  \<comment> \<open>the returned filesystem is the one the call leaves; every exception raised inside
      the \<^verbatim>\<open>try\<close> block is the result \<open>False\<close>. The target's directory is the
      parent of the target's canonical path.\<close>
  "build_resized pf im fs source_path target_path max_size quality =
     (if path_exists pf fs target_path then (False, fs)
      else if \<not> PIL_AVAILABLE im then (False, fs)
      else case open_image pf im fs source_path of
        Inl e \<Rightarrow> (False, fs)
      | Inr image0 \<Rightarrow>
         (case prepare_image im image0 max_size of
            Inl e \<Rightarrow> (False, fs)
          | Inr image1 \<Rightarrow>
             (let target = resolve pf target_path in
              case mkdir_parents fs [] (butlast (parts target)) of
                Inl e \<Rightarrow> (False, fs)
              | Inr fs1 \<Rightarrow>
                 (case encode_jpeg im image1 quality of
                    Saved bytes \<Rightarrow> (True, put_entry fs1 target (File bytes))
                  | SaveFailed e None \<Rightarrow> (False, fs1)
                  | SaveFailed e (Some partial) \<Rightarrow>
                      (False, put_entry fs1 target (File partial))))))"

subsection \<open>The request handler\<close>




definition startswith :: "string \<Rightarrow> string \<Rightarrow> bool" where
  "startswith s p = (take (length p) s = p)"

definition endswith :: "string \<Rightarrow> string \<Rightarrow> bool" where
  "endswith s suf = (length suf \<le> length s \<and> drop (length s - length suf) s = suf)"




subsection \<open>A platform without symbolic links\<close>

fun normalize :: "string list \<Rightarrow> string list \<Rightarrow> string list" where
  \<comment> \<open>removes \<^verbatim>\<open>..\<close> segments; the parent of the filesystem root is the root\<close>
  "normalize acc [] = acc"
| "normalize acc (w # ws) =
     (if w = ''..'' then normalize (butlast acc) ws else normalize (acc @ [w]) ws)"

definition lexical_resolve :: "path \<Rightarrow> path \<Rightarrow> path" where
  "lexical_resolve cwd p = Path True (normalize [] (parts (joinpath cwd p)))"

subsection \<open>Sample inputs\<close>

text \<open>
  Concrete inputs on which the definitions are evaluated: a JSON parser that knows the
  texts below (any other text is a \<^verbatim>\<open>JSONDecodeError\<close>), a dataset root
  \<^verbatim>\<open>/data\<close>, and small filesystems.
\<close>

definition meta_cat :: string where
  \<open>meta_cat = ''{"tag_string_general": "cat outdoor"}''\<close>

definition meta_wrong_type :: string where
  \<open>meta_wrong_type = ''{"tag_string_artist": 5}''\<close>

definition row_good :: string where
  \<open>row_good = ''{"image_path": "a.png", "caption_path": "a.txt", "general": ["cat"]}''\<close>

definition row_dir_image :: string where
  \<open>row_dir_image = ''{"image_path": "notes", "caption_path": "a.txt"}''\<close>

definition row_no_image :: string where
  \<open>row_no_image = ''{"caption_path": "a.txt"}''\<close>

definition row_outside_caption :: string where
  \<open>row_outside_caption = ''{"image_path": "a.png", "caption_path": "../secret.txt"}''\<close>

definition row_dir_caption :: string where
  \<open>row_dir_caption = ''{"image_path": "a.png", "caption_path": "notes"}''\<close>

definition sample_json :: "string \<Rightarrow> json option" where
  "sample_json =
     map_of
       [(meta_cat, JObj [(''tag_string_general'', JStr ''cat outdoor'')]),
        (meta_wrong_type, JObj [(''tag_string_artist'', JInt 5)]),
        (row_good, JObj [(''image_path'', JStr ''a.png''), (''caption_path'', JStr ''a.txt''),
                         (''general'', JArr [JStr ''cat''])]),
        (row_dir_image, JObj [(''image_path'', JStr ''notes''), (''caption_path'', JStr ''a.txt'')]),
        (row_no_image, JObj [(''caption_path'', JStr ''a.txt'')]),
        (row_outside_caption,
           JObj [(''image_path'', JStr ''a.png''), (''caption_path'', JStr ''../secret.txt'')]),
        (row_dir_caption,
           JObj [(''image_path'', JStr ''a.png''), (''caption_path'', JStr ''notes'')])]"

definition posix :: platform where
  "posix = \<lparr>resolve = lexical_resolve (Path True []), decode_utf8 = Some,
             json_loads = sample_json\<rparr>"

definition data_root :: path where
  "data_root = Path True [''data'']"

definition fs_cat :: fs where
  "fs_cat =
     [(Path True [''data''], Dir),
      (Path True [''data'', ''a.png''], File ''PNG''),
      (Path True [''data'', ''a.png.json''], File meta_cat),
      (Path True [''data'', ''a.png.caption.txt''], File (''a cat outside'' @ [CHR 0x0A]))]"

definition fs_wrong_type :: fs where
  "fs_wrong_type =
     [(Path True [''data''], Dir),
      (Path True [''data'', ''a.png''], File ''PNG''),
      (Path True [''data'', ''a.png.json''], File meta_wrong_type),
      (Path True [''data'', ''b.png''], File ''PNG'')]"

definition fs_manifest :: fs where
  "fs_manifest =
     [(Path True [''secret.txt''], File ''secret''),
      (Path True [''data''], Dir),
      (Path True [''data'', ''a.png''], File ''PNG''),
      (Path True [''data'', ''a.txt''], File '' a cat ''),
      (Path True [''data'', ''notes''], Dir),
      (Path True [''data'', ''good.jsonl''], File (row_good @ [CHR 0x0A])),
      (Path True [''data'', ''dir_image.jsonl''],
         File (row_dir_image @ [CHR 0x0A] @ row_no_image @ [CHR 0x0A])),
      (Path True [''data'', ''outside.jsonl''], File (row_outside_caption @ [CHR 0x0A])),
      (Path True [''data'', ''dir_caption.jsonl''], File (row_dir_caption @ [CHR 0x0A]))]"


definition fs_long_manifest :: fs where
  \<comment> \<open>a manifest of 499 blank lines and one row\<close>
  "fs_long_manifest =
     [(Path True [''data''], Dir),
      (Path True [''data'', ''a.png''], File ''PNG''),
      (Path True [''data'', ''a.txt''], File '' a cat ''),
      (Path True [''data'', ''long.jsonl''], File (replicate 499 (CHR 0x0A) @ row_good))]"

definition rgb_image :: image where
  "rgb_image = \<lparr>img_mode = ''RGB'', img_size = (800, 600)\<rparr>"

definition pil_ok :: pil where
  "pil_ok =
     \<lparr>PIL_AVAILABLE = True,
      decode_image = (\<lambda>bytes. Inr rgb_image),
      exif_transpose = Inr,
      flatten_alpha = (\<lambda>image. Inr (image\<lparr>img_mode := ''RGB''\<rparr>)),
      convert_rgb = (\<lambda>image. Inr (image\<lparr>img_mode := ''RGB''\<rparr>)),
      thumbnail = (\<lambda>image max_size. Inr (image\<lparr>img_size := (max_size, max_size)\<rparr>)),
      encode_jpeg = (\<lambda>image quality. Saved ''JPEG'')\<rparr>"



definition pil_corrupt :: pil where
  "pil_corrupt = pil_ok\<lparr>decode_image := (\<lambda>bytes. Inl ImageError)\<rparr>"

definition a_png :: path where
  "a_png = Path True [''data'', ''a.png'']"

definition a_thumb :: path where
  "a_thumb = Path True [''data'', ''.thumbs'', ''a.png.thumb.jpg'']"

definition fs_thumbed :: fs where
  "fs_thumbed = fs_cat @ [(Path True [''data'', ''.thumbs''], Dir), (a_thumb, File ''JPEG'')]"


section \<open>Properties\<close>

subsection \<open>Path sandbox\<close>

lemma strip_prefix_Some_iff: "strip_prefix xs ys = Some zs \<longleftrightarrow> ys = xs @ zs"
  by (induction xs ys rule: strip_prefix.induct) auto

lemma strip_prefix_None_iff: "strip_prefix xs ys = None \<longleftrightarrow> \<not> prefix xs ys"
  by (induction xs ys rule: strip_prefix.induct) auto

lemma relative_to_Some_iff:
  "relative_to t r = Some rel \<longleftrightarrow>
     is_absolute t = is_absolute r \<and> \<not> is_absolute rel \<and> parts t = parts r @ parts rel"
  by (cases rel) (auto simp: relative_to_def strip_prefix_Some_iff)

lemma inside_root_iff:
  "inside_root r t \<longleftrightarrow> is_absolute t = is_absolute r \<and> prefix (parts r) (parts t)"
proof
  assume "inside_root r t"
  then show "is_absolute t = is_absolute r \<and> prefix (parts r) (parts t)"
    by (auto simp: inside_root_def joinpath_def)
next
  assume h: "is_absolute t = is_absolute r \<and> prefix (parts r) (parts t)"
  then obtain below where b: "parts t = parts r @ below"
    by (auto simp: prefix_def)
  show "inside_root r t"
  proof (cases "below = []")
    case True
    with h b have "t = r" by (simp add: path.expand)
    then show ?thesis by (simp add: inside_root_def)
  next
    case False
    from h b have "t = joinpath r (Path False below)"
      by (simp add: joinpath_def path.expand)
    with False show ?thesis by (auto simp: inside_root_def)
  qed
qed

lemma relative_to_None_iff: "relative_to t r = None \<longleftrightarrow> \<not> inside_root r t"
  by (simp add: relative_to_def inside_root_iff strip_prefix_None_iff)

text \<open>
  C1. For every root and every candidate, \<open>safe_relative\<close> accepts the candidate (returns a
  relative path) exactly when the canonical form of the candidate is the canonical root
  itself or a descendant of it; in every other case it returns the rejection value
  \<open>None\<close>. This holds whatever the canonicalisation does with links and \<^verbatim>\<open>..\<close>
  segments, since both operands are canonicalised before they are compared.
\<close>

theorem safe_relative_accepts_iff_inside:
  "safe_relative pf root target =
     (if inside_root (resolve pf root) (resolve pf target)
      then Some (Path False (drop (length (parts (resolve pf root))) (parts (resolve pf target))))
      else None)"
proof (cases "inside_root (resolve pf root) (resolve pf target)")
  case True
  then obtain below where "parts (resolve pf target) = parts (resolve pf root) @ below"
    and "is_absolute (resolve pf target) = is_absolute (resolve pf root)"
    by (auto simp: inside_root_iff prefix_def)
  then have "relative_to (resolve pf target) (resolve pf root) = Some (Path False below)"
    by (simp add: relative_to_Some_iff)
  with True \<open>parts (resolve pf target) = parts (resolve pf root) @ below\<close> show ?thesis
    by (simp add: safe_relative_def)
next
  case False
  then have "relative_to (resolve pf target) (resolve pf root) = None"
    by (simp add: relative_to_None_iff)
  with False show ?thesis by (simp add: safe_relative_def)
qed

theorem safe_relative_witness:
  "safe_relative posix data_root (Path_of ''/data/sub/../a.png'') = Some (Path False [''a.png'']) \<and>
   safe_relative posix data_root (Path_of ''/data/../etc/passwd'') = None \<and>
   safe_relative posix data_root (Path_of ''/data'') = Some (Path False [])"
proof -
  have r: "resolve posix data_root = Path True [''data'']" by code_simp
  have t1: "resolve posix (Path_of ''/data/sub/../a.png'') = Path True [''data'', ''a.png'']" by code_simp
  have t2: "resolve posix (Path_of ''/data/../etc/passwd'') = Path True [''etc'', ''passwd'']" by code_simp
  have t3: "resolve posix (Path_of ''/data'') = Path True [''data'']" by code_simp
  from safe_relative_accepts_iff_inside [of posix data_root "Path_of ''/data/sub/../a.png''"]
       safe_relative_accepts_iff_inside [of posix data_root "Path_of ''/data/../etc/passwd''"]
       safe_relative_accepts_iff_inside [of posix data_root "Path_of ''/data''"]
       r t1 t2 t3
  show ?thesis by (simp add: inside_root_iff)
qed

subsection \<open>The loop of the index builder\<close>


lemma index_loop_items:
  "index_loop body pg idx xs its s = (Inr out, s') \<Longrightarrow>
     out = its @ concat (map (emitted body) xs) \<and> (\<forall>x \<in> set xs. \<forall>e. body x \<noteq> Inl e)"
proof (induction xs arbitrary: idx its s)
  case Nil
  then show ?case by simp
next
  case (Cons x xs)
  show ?case
  proof (cases "body x")
    case (Inl e)
    with Cons.prems show ?thesis by simp
  next
    case (Inr r)
    show ?thesis
    proof (cases r)
      case None
      with Inr Cons.prems have "index_loop body pg (Suc idx) xs its s = (Inr out, s')" by simp
      from Cons.IH [OF this] Inr None show ?thesis by (simp add: emitted_def)
    next
      case (Some it)
      with Inr Cons.prems obtain s1 where
        "index_loop body pg (Suc idx) xs (its @ [it]) s1 = (Inr out, s')" by simp
      from Cons.IH [OF this] Inr Some show ?thesis by (simp add: emitted_def)
    qed
  qed
qed

lemma index_loop_calls_append:
  "snd (index_loop body (Some (\<lambda>n c. c @ [n])) idx xs its (c0 @ c1)) =
   c0 @ snd (index_loop body (Some (\<lambda>n c. c @ [n])) idx xs its c1)"
  by (induction xs arbitrary: idx its c1) (auto split: sum.splits option.splits)

lemma index_loop_calls_bounds:
  "n \<in> set (snd (index_loop body (Some (\<lambda>n c. c @ [n])) idx xs its [])) \<Longrightarrow>
     idx \<le> n \<and> n < idx + length xs \<and> n mod 500 = 0"
proof (induction xs arbitrary: idx its)
  case Nil
  then show ?case by simp
next
  case (Cons x xs)
  show ?case
  proof (cases "body x")
    case (Inl e)
    with Cons.prems show ?thesis by simp
  next
    case (Inr r)
    show ?thesis
    proof (cases r)
      case None
      with Inr Cons.prems Cons.IH [of "Suc idx" its] show ?thesis by auto
    next
      case (Some it)
      show ?thesis
      proof (cases "idx mod 500 = 0")
        case True
        with Inr Some Cons.prems
        have "n \<in> set (snd (index_loop body (Some (\<lambda>n c. c @ [n])) (Suc idx) xs (its @ [it]) ([idx] @ [])))"
          by simp
        then have "n = idx \<or> n \<in> set (snd (index_loop body (Some (\<lambda>n c. c @ [n])) (Suc idx) xs (its @ [it]) []))"
          unfolding index_loop_calls_append by auto
        with True Cons.IH [of "Suc idx" "its @ [it]"] show ?thesis by auto
      next
        case False
        with Inr Some Cons.prems Cons.IH [of "Suc idx" "its @ [it]"] show ?thesis by auto
      qed
    qed
  qed
qed

lemma index_loop_calls_increasing:
  "sorted_wrt (<) (snd (index_loop body (Some (\<lambda>n c. c @ [n])) idx xs its []))"
proof (induction xs arbitrary: idx its)
  case Nil
  then show ?case by simp
next
  case (Cons x xs)
  show ?case
  proof (cases "body x")
    case (Inl e)
    then show ?thesis by simp
  next
    case (Inr r)
    show ?thesis
    proof (cases r)
      case None
      with Inr Cons.IH show ?thesis by simp
    next
      case (Some it)
      show ?thesis
      proof (cases "idx mod 500 = 0")
        case True
        have "snd (index_loop body (Some (\<lambda>n c. c @ [n])) idx (x # xs) its []) =
              [idx] @ snd (index_loop body (Some (\<lambda>n c. c @ [n])) (Suc idx) xs (its @ [it]) [])"
          using Inr Some True index_loop_calls_append [of body "Suc idx" xs "its @ [it]" "[idx]" "[]"]
          by simp
        moreover have "\<forall>n \<in> set (snd (index_loop body (Some (\<lambda>n c. c @ [n])) (Suc idx) xs (its @ [it]) [])). idx < n"
          using index_loop_calls_bounds by fastforce
        ultimately show ?thesis using Cons.IH [of "Suc idx" "its @ [it]"] by simp
      next
        case False
        with Inr Some Cons.IH show ?thesis by simp
      qed
    qed
  qed
qed

lemma index_loop_state_fold:
  "snd (index_loop body (Some g) idx xs its s) =
   fold g (snd (index_loop body (Some (\<lambda>n c. c @ [n])) idx xs its [])) s"
proof (induction xs arbitrary: idx its s)
  case Nil
  then show ?case by simp
next
  case (Cons x xs)
  show ?case
  proof (cases "body x")
    case (Inl e)
    then show ?thesis by simp
  next
    case (Inr r)
    show ?thesis
    proof (cases r)
      case None
      with Inr Cons.IH show ?thesis by simp
    next
      case (Some it)
      show ?thesis
      proof (cases "idx mod 500 = 0")
        case True
        have "snd (index_loop body (Some (\<lambda>n c. c @ [n])) idx (x # xs) its []) =
              [idx] @ snd (index_loop body (Some (\<lambda>n c. c @ [n])) (Suc idx) xs (its @ [it]) [])"
          using Inr Some True index_loop_calls_append [of body "Suc idx" xs "its @ [it]" "[idx]" "[]"]
          by simp
        with Inr Some True Cons.IH [of "Suc idx" "its @ [it]" "g idx s"] show ?thesis by simp
      next
        case False
        with Inr Some Cons.IH show ?thesis by simp
      qed
    qed
  qed
qed


lemma finish_snd: "snd (finish r) = snd r"
  by (cases r) (auto simp: finish_def split: sum.splits)


subsection \<open>Ordering of the index\<close>



subsection \<open>The progress counter\<close>

lemma progress_calls_scan:
  "progress_calls pf fs root None =
     snd (index_loop (scan_entry pf fs root) (Some (\<lambda>n calls. calls @ [n])) 1 (rglob pf fs root) [] [])"
  by (simp add: progress_calls_def load_items_def finish_snd)

lemma progress_calls_cases:
  "progress_calls pf fs root ip = [] \<or>
   (\<exists>body xs. progress_calls pf fs root ip =
      snd (index_loop body (Some (\<lambda>n calls. calls @ [n])) 1 (xs :: string list) [] [])) \<or>
   progress_calls pf fs root ip =
      snd (index_loop (scan_entry pf fs root) (Some (\<lambda>n calls. calls @ [n])) 1 (rglob pf fs root) [] [])"
  unfolding progress_calls_def load_items_def
  by (auto simp: finish_snd split: option.splits sum.splits)

lemma progress_calls_increasing: "sorted_wrt (<) (progress_calls pf fs root ip)"
  using progress_calls_cases [of pf fs root ip]
  by (auto simp: index_loop_calls_increasing)

lemma progress_calls_multiples:
  "n \<in> set (progress_calls pf fs root ip) \<Longrightarrow> 0 < n \<and> n mod 500 = 0"
  using progress_calls_cases [of pf fs root ip]
  by (auto dest!: index_loop_calls_bounds)

lemma progress_calls_scan_bound:
  "n \<in> set (progress_calls pf fs root None) \<Longrightarrow> n \<le> length (rglob pf fs root)"
  unfolding progress_calls_scan by (auto dest!: index_loop_calls_bounds)

lemma load_items_state:
  "snd (load_items pf fs root ip (Some g) s) = fold g (progress_calls pf fs root ip) s"
  unfolding progress_calls_def load_items_def
  by (auto simp: finish_snd index_loop_state_fold [of _ g] split: option.splits sum.splits)

lemma scanned_fold_progress: "scanned (fold progress calls st) = last (scanned st # calls)"
  by (induction calls arbitrary: st) (auto simp: progress_def)

lemma build_items_scanned:
  "scanned (snd (build_items pf fs root ip st)) = scanned (snd (load_items pf fs root ip (Some progress) st))"
  by (auto simp: build_items_def split: prod.splits sum.splits)

text \<open>
  C2, as the code has it. During one background build the values the progress callback
  stores into \<open>scanned\<close> are strictly increasing positive multiples of 500, stored one
  after the other, so the counter never decreases; after the build \<open>scanned\<close> is the
  last value stored, or still its initial value when none was stored. In scan mode every
  stored value is at most the number of entries enumerated below the root. The counter is
  the number of an entry among all entries enumerated, not a count of items.
\<close>

theorem scanned_strictly_increasing_last_report:
  "sorted_wrt (<) (progress_calls pf fs root index_path) \<and>
   (\<forall>n \<in> set (progress_calls pf fs root index_path). 0 < n \<and> n mod 500 = 0) \<and>
   snd (load_items pf fs root index_path (Some progress) st) =
     fold progress (progress_calls pf fs root index_path) st \<and>
   scanned (snd (build_items pf fs root index_path st)) =
     last (scanned st # progress_calls pf fs root index_path) \<and>
   (\<forall>n \<in> set (progress_calls pf fs root None). n \<le> length (rglob pf fs root))"
  using progress_calls_increasing progress_calls_multiples progress_calls_scan_bound
  by (simp add: load_items_state build_items_scanned scanned_fold_progress)

theorem scanned_last_report_witness:
  "progress_calls posix fs_long_manifest data_root (Some (Path True [''data'', ''long.jsonl''])) = [500] \<and>
   scanned (snd (build_items posix fs_long_manifest data_root
     (Some (Path True [''data'', ''long.jsonl''])) new_store)) = 500 \<and>
   length (file_lines (universal_newlines (replicate 499 (CHR 0x0A) @ row_good))) = 500"
proof -
  have calls: "progress_calls posix fs_long_manifest data_root
      (Some (Path True [''data'', ''long.jsonl''])) = [500]"
    by code_simp
  have lines: "length (file_lines (universal_newlines (replicate 499 (CHR 0x0A) @ row_good))) = 500"
    by code_simp
  from scanned_strictly_increasing_last_report
    [of posix fs_long_manifest data_root "Some (Path True [''data'', ''long.jsonl''])" new_store]
    calls lines
  show ?thesis by simp
qed

text \<open>
  The claim as stated fails in scan mode: with one image below the root the build
  publishes one item and \<open>scanned\<close> is still 0 when \<open>ready\<close> is true.
\<close>

theorem scanned_not_item_count:
  "ready (snd (build_items posix fs_cat data_root None new_store)) \<and>
   scanned (snd (build_items posix fs_cat data_root None new_store)) = 0 \<and>
   length (items (snd (build_items posix fs_cat data_root None new_store))) = 1"
  by code_simp

subsection \<open>The derivative cache\<close>

lemma map_of_put_entry: "map_of (put_entry fs k v) = (map_of fs)(k \<mapsto> v)"
  by (induction fs k v rule: put_entry.induct) (auto simp: fun_eq_iff)

lemma mkdir_parents_keeps:
  "mkdir_parents fs done todo = Inr fs1 \<Longrightarrow> map_of fs k = Some v \<Longrightarrow> map_of fs1 k = Some v"
proof (induction fs "done" todo arbitrary: fs1 rule: mkdir_parents.induct)
  case (1 fs "done")
  then show ?case by simp
next
  case (2 fs "done" w ws)
  show ?case
  proof (cases "map_of fs (Path True (done @ [w]))")
    case None
    with "2.prems" have run: "mkdir_parents (fs @ [(Path True (done @ [w]), Dir)]) (done @ [w]) ws = Inr fs1"
      by simp
    from "2.prems" have "map_of (fs @ [(Path True (done @ [w]), Dir)]) k = Some v"
      by (simp add: map_add_Some_iff)
    from "2.IH"(1) [OF None run this] show ?thesis .
  next
    case (Some n)
    show ?thesis
    proof (cases n)
      case Dir
      with Some "2.prems" have "mkdir_parents fs (done @ [w]) ws = Inr fs1" by simp
      from "2.IH"(2) [OF Some Dir this "2.prems"(2)] show ?thesis .
    next
      case (File bytes)
      with Some "2.prems" show ?thesis by simp
    qed
  qed
qed



lemma build_resized_cases:
  assumes "\<not> path_exists pf fs tgt"
  shows "build_resized pf im fs src tgt ms q =
     (if \<not> PIL_AVAILABLE im then (False, fs)
      else case open_image pf im fs src of
        Inl e \<Rightarrow> (False, fs)
      | Inr image0 \<Rightarrow>
         (case prepare_image im image0 ms of
            Inl e \<Rightarrow> (False, fs)
          | Inr image1 \<Rightarrow>
             (case mkdir_parents fs [] (butlast (parts (resolve pf tgt))) of
                Inl e \<Rightarrow> (False, fs)
              | Inr fs1 \<Rightarrow>
                 (case encode_jpeg im image1 q of
                    Saved bytes \<Rightarrow> (True, put_entry fs1 (resolve pf tgt) (File bytes))
                  | SaveFailed e None \<Rightarrow> (False, fs1)
                  | SaveFailed e (Some partial) \<Rightarrow>
                      (False, put_entry fs1 (resolve pf tgt) (File partial))))))"
  using assms by (simp add: build_resized_def Let_def split: sum.splits)





text \<open>
  C9. When a call of \<open>build_resized\<close> has written the cache file, a second call for the
  same cache path returns at once with the filesystem unchanged. It does so for every
  imaging library, source, size and quality given to the second call, so nothing is
  opened or encoded again.
\<close>

theorem build_resized_second_call_is_cache_hit:
  assumes "build_resized pf im fs src tgt ms q = (True, fs')"
  shows "build_resized pf im' fs' src' tgt ms' q' = (False, fs')"
proof -
  have "path_exists pf fs' tgt"
  proof (cases "path_exists pf fs tgt")
    case True
    with assms show ?thesis by (simp add: build_resized_def)
  next
    case False
    from assms show ?thesis
      unfolding build_resized_cases [OF False]
      by (auto simp: path_exists_def map_of_put_entry split: if_splits sum.splits save_outcome.splits option.splits)
  qed
  then show ?thesis by (simp add: build_resized_def)
qed

theorem build_resized_second_call_witness:
  "build_resized posix pil_ok fs_cat a_png a_thumb 360 82 = (True, fs_thumbed) \<and>
   build_resized posix pil_corrupt fs_thumbed a_png a_thumb 1600 88 = (False, fs_thumbed)"
proof -
  have first: "build_resized posix pil_ok fs_cat a_png a_thumb 360 82 = (True, fs_thumbed)"
    by code_simp
  from build_resized_second_call_is_cache_hit [OF first, of pil_corrupt a_png 1600 88] first
  show ?thesis by blast
qed

subsection \<open>Derivative requests without the imaging library\<close>



lemma startswith_append: "startswith (p @ rest) p"
  by (simp add: startswith_def)




subsection \<open>Cache files in a later scan\<close>

lemma split_on_nonempty: "split_on c s \<noteq> []"
  by (induction s) (auto split: list.splits)

lemma split_on_append:
  "c \<notin> set suf \<Longrightarrow> split_on c (s @ suf) = butlast (split_on c s) @ [last (split_on c s) @ suf]"
proof (induction s)
  case Nil
  then show ?case by (induction suf) (auto split: list.splits)
next
  case (Cons x s)
  then show ?case
    using split_on_nonempty [of c s] split_on_nonempty [of c "s @ suf"]
    by (auto split: list.splits simp: butlast_append)
qed

lemma parts_Path_of_append:
  assumes "CHR ''/'' \<notin> set suf" "suf \<noteq> []" "suf \<noteq> ''.''" "length suf > 1"
  shows "parts (Path_of (s @ suf)) =
     filter (\<lambda>w. w \<noteq> [] \<and> w \<noteq> ''.'') (butlast (split_on CHR ''/'' s)) @ [last (split_on CHR ''/'' s) @ suf]"
proof -
  have "last (split_on CHR ''/'' s) @ suf \<noteq> ''.''"
    using assms(4) by (metis length_append length_Cons list.size(3) One_nat_def not_add_less2)
  with assms show ?thesis
    by (simp add: Path_of_def split_on_append)
qed

lemma rfind_append:
  "rfind c (xs @ ys) = (case rfind c ys of Some i \<Rightarrow> Some (length xs + i) | None \<Rightarrow> rfind c xs)"
  by (induction xs) (auto split: option.splits)

lemma suffix_of_thumb: "suffix_of (w @ ''.thumb.jpg'') = ''.jpg''"
  by (simp add: suffix_of_def rfind_append)

lemma suffix_of_display: "suffix_of (w @ ''.display.jpg'') = ''.jpg''"
  by (simp add: suffix_of_def rfind_append)

lemma intercalate_hd:
  "w \<noteq> [] \<Longrightarrow> intercalate sep (w # ws) \<noteq> [] \<and> hd (intercalate sep (w # ws)) = hd w"
  by (cases ws) auto

lemma as_posix_relative_start:
  assumes "\<not> is_absolute rel" "well_formed rel"
  shows "as_posix rel \<noteq> [] \<and> hd (as_posix rel) \<noteq> CHR ''/''"
proof (cases "parts rel")
  case Nil
  with assms show ?thesis by (simp add: as_posix_def)
next
  case (Cons w ws)
  with assms have w: "w \<noteq> []" "CHR ''/'' \<notin> set w" by (auto simp: well_formed_def)
  then have "hd w \<noteq> CHR ''/''" by (cases w) auto
  with intercalate_hd [OF w(1), of "''/''" ws] assms(1) Cons show ?thesis
    by (simp add: as_posix_def)
qed

lemma cache_name_shape:
  assumes "\<not> is_absolute rel" "well_formed rel"
    and "CHR ''/'' \<notin> set suf" "length suf > 1"
  shows "\<not> is_absolute (Path_of (as_posix rel @ suf)) \<and>
         (\<exists>front w. parts (Path_of (as_posix rel @ suf)) = front @ [w @ suf])"
proof -
  from as_posix_relative_start [OF assms(1,2)]
  have "\<not> is_absolute (Path_of (as_posix rel @ suf))"
    by (simp add: Path_of_def)
  moreover from assms(4) have "suf \<noteq> []" "suf \<noteq> ''.''" by auto
  with parts_Path_of_append [OF assms(3) _ _ assms(4), of "as_posix rel"]
  have "\<exists>front w. parts (Path_of (as_posix rel @ suf)) = front @ [w @ suf]" by blast
  ultimately show ?thesis by blast
qed

lemma cache_path_shape:
  assumes "\<not> is_absolute rel" "well_formed rel"
    and "CHR ''/'' \<notin> set suf" "length suf > 1"
    and "tgt = joinpath (joinpath root (Path_of dir)) (Path_of (as_posix rel @ suf))"
    and "\<not> is_absolute (Path_of dir)"
  shows "is_absolute tgt = is_absolute root \<and>
         (\<exists>below w. below \<noteq> [] \<and> parts tgt = parts root @ below \<and> path_name tgt = w @ suf)"
proof -
  from cache_name_shape [OF assms(1-4)] obtain front w where
    rel: "\<not> is_absolute (Path_of (as_posix rel @ suf))"
    and shape: "parts (Path_of (as_posix rel @ suf)) = front @ [w @ suf]" by blast
  have "parts tgt = parts root @ (parts (Path_of dir) @ front @ [w @ suf])"
    using assms(5,6) rel shape by (simp add: joinpath_def)
  moreover have "path_name tgt = w @ suf"
    using assms(5,6) rel shape by (simp add: joinpath_def path_name_def)
  moreover have "is_absolute tgt = is_absolute root"
    using assms(5,6) rel by (simp add: joinpath_def)
  ultimately show ?thesis by blast
qed

lemma rglob_member:
  assumes "(k, node) \<in> set fs" "relative_to k (resolve pf root) = Some rel" "parts rel \<noteq> []"
  shows "joinpath root rel \<in> set (rglob pf fs root)"
proof -
  have "joinpath root rel \<in> set (case relative_to (fst (k, node)) (resolve pf root) of
          None \<Rightarrow> []
        | Some rel \<Rightarrow> if parts rel = [] then [] else [joinpath root rel])"
    using assms(2,3) by simp
  with assms(1) show ?thesis
    unfolding rglob_def set_concat set_map image_image by blast
qed

lemma scan_emits_existing_image:
  assumes canon_root: "resolve pf root = root" and canon: "resolve pf k = k"
    and present: "map_of fs k = Some node"
    and anchor: "is_absolute k = is_absolute root"
    and below: "parts k = parts root @ below" "below \<noteq> []"
    and ext: "lower (suffix_of (path_name k)) \<in> IMAGE_EXTS"
    and run: "load_items pf fs root None pg s = (Inr its, s')"
  shows "\<exists>it \<in> set its. name it = path_name k \<and> image_url it = to_file_url (Path False below)"
proof -
  have rel: "relative_to k root = Some (Path False below)"
    using anchor below by (simp add: relative_to_Some_iff)
  have k: "joinpath root (Path False below) = k"
    using anchor below by (simp add: joinpath_def path.expand)
  from present have "(k, node) \<in> set fs" by (rule map_of_SomeD)
  from rglob_member [OF this, of pf root "Path False below"] rel k below(2) canon_root
  have listed: "k \<in> set (rglob pf fs root)" by simp
  from run obtain raw where
    loop: "index_loop (scan_entry pf fs root) pg 1 (rglob pf fs root) [] s = (Inr raw, s')"
    and sorted: "its = sort_items raw"
    by (auto simp: load_items_def finish_def split: prod.splits sum.splits)
  from index_loop_items [OF loop] listed
  have raw: "raw = concat (map (emitted (scan_entry pf fs root)) (rglob pf fs root))"
    and ok: "\<forall>e. scan_entry pf fs root k \<noteq> Inl e" by auto
  have safe: "safe_relative pf root k = Some (Path False below)"
    using rel canon_root canon by (simp add: safe_relative_def)
  from ok ext safe obtain cap ts where
    "scan_entry pf fs root k = Inr (Some (make_item k (Path False below) cap ts))"
    by (auto simp: scan_entry_def split: sum.splits)
  then have "make_item k (Path False below) cap ts \<in> set raw"
    using listed raw by (auto simp: emitted_def intro!: bexI [of _ k])
  then have "make_item k (Path False below) cap ts \<in> set its"
    using sorted by (simp add: sort_items_def)
  then show ?thesis by (auto simp: make_item_def intro!: bexI [of _ "make_item k (Path False below) cap ts"])
qed

lemma build_resized_True_entry:
  assumes "build_resized pf im fs src tgt ms q = (True, fs')"
  shows "\<exists>bytes. map_of fs' (resolve pf tgt) = Some (File bytes)"
proof (cases "path_exists pf fs tgt")
  case True
  with assms show ?thesis by (simp add: build_resized_def)
next
  case False
  from assms show ?thesis
    unfolding build_resized_cases [OF False]
    by (auto simp: map_of_put_entry split: if_splits sum.splits save_outcome.splits option.splits)
qed

text \<open>
  C10. The cache path of a derivative lies below the root, in \<^verbatim>\<open>.thumbs\<close> or
  \<^verbatim>\<open>.display\<close>, and its name ends in \<^verbatim>\<open>.jpg\<close>. So once \<open>build_resized\<close> has
  written it, every scan-mode build that returns an index has an item for the cache file
  itself: its name is the cache file's name and its URL is the cache file's path below the
  root. The relative path is one pathlib has built (relative, well-formed parts), and root
  and cache path are canonical.
\<close>

theorem scan_after_derivative_emits_cache_file:
  assumes canon_root: "resolve pf root = root"
    and tgt: "tgt = make_thumb_path root rel \<or> tgt = make_display_path root rel"
    and canon: "resolve pf tgt = tgt"
    and rel: "\<not> is_absolute rel" "well_formed rel"
    and built: "build_resized pf im fs src tgt ms q = (True, fs')"
    and run: "load_items pf fs' root None pg s = (Inr its, s')"
  shows "\<exists>it \<in> set its.
           name it = path_name tgt \<and>
           image_url it = to_file_url (Path False (drop (length (parts root)) (parts tgt))) \<and>
           (endswith (name it) THUMB_SUFFIX \<or> endswith (name it) DISPLAY_SUFFIX)"
proof -
  from build_resized_True_entry [OF built] canon obtain bytes where
    present: "map_of fs' tgt = Some (File bytes)" by auto
  from tgt have "is_absolute tgt = is_absolute root \<and>
     (\<exists>below w. below \<noteq> [] \<and> parts tgt = parts root @ below \<and>
        (path_name tgt = w @ THUMB_SUFFIX \<or> path_name tgt = w @ DISPLAY_SUFFIX))"
  proof
    assume t: "tgt = make_thumb_path root rel"
    have "is_absolute tgt = is_absolute root \<and>
       (\<exists>below w. below \<noteq> [] \<and> parts tgt = parts root @ below \<and> path_name tgt = w @ THUMB_SUFFIX)"
      by (rule cache_path_shape [OF rel, where dir = "''.thumbs''"])
         (simp_all add: t make_thumb_path_def THUMB_SUFFIX_def Path_of_def)
    then show ?thesis by blast
  next
    assume t: "tgt = make_display_path root rel"
    have "is_absolute tgt = is_absolute root \<and>
       (\<exists>below w. below \<noteq> [] \<and> parts tgt = parts root @ below \<and> path_name tgt = w @ DISPLAY_SUFFIX)"
      by (rule cache_path_shape [OF rel, where dir = "''.display''"])
         (simp_all add: t make_display_path_def DISPLAY_SUFFIX_def Path_of_def)
    then show ?thesis by blast
  qed
  then obtain below w where anchor: "is_absolute tgt = is_absolute root"
    and below: "below \<noteq> []" "parts tgt = parts root @ below"
    and nm: "path_name tgt = w @ THUMB_SUFFIX \<or> path_name tgt = w @ DISPLAY_SUFFIX" by blast
  from nm have ext: "lower (suffix_of (path_name tgt)) \<in> IMAGE_EXTS"
    by (auto simp: THUMB_SUFFIX_def DISPLAY_SUFFIX_def suffix_of_thumb suffix_of_display
        lower_def lower_char_def IMAGE_EXTS_def)
  from nm have ends: "endswith (path_name tgt) THUMB_SUFFIX \<or> endswith (path_name tgt) DISPLAY_SUFFIX"
    by (auto simp: endswith_def)
  from scan_emits_existing_image [OF canon_root canon present anchor below(2,1) ext run]
  obtain it where "it \<in> set its" "name it = path_name tgt" "image_url it = to_file_url (Path False below)"
    by blast
  with ends below(2) show ?thesis by (auto intro!: bexI [of _ it])
qed

theorem scan_after_derivative_witness:
  "build_resized posix pil_ok fs_cat a_png a_thumb 360 82 = (True, fs_thumbed) \<and>
   load_items posix fs_thumbed data_root None None () =
     (Inr [make_item a_png (Path False [''a.png'']) ''a cat outside''
            (empty_tags\<lparr>general := JArr [JStr ''cat'', JStr ''outdoor'']\<rparr>),
          make_item a_thumb (Path False [''.thumbs'', ''a.png.thumb.jpg'']) [] empty_tags], ()) \<and>
   (\<exists>it \<in> set [make_item a_png (Path False [''a.png'']) ''a cat outside''
            (empty_tags\<lparr>general := JArr [JStr ''cat'', JStr ''outdoor'']\<rparr>),
          make_item a_thumb (Path False [''.thumbs'', ''a.png.thumb.jpg'']) [] empty_tags].
      name it = path_name a_thumb \<and>
      image_url it = to_file_url (Path False (drop (length (parts data_root)) (parts a_thumb))) \<and>
      (endswith (name it) THUMB_SUFFIX \<or> endswith (name it) DISPLAY_SUFFIX))"
proof -
  have canon_root: "resolve posix data_root = data_root" by code_simp
  have "a_thumb = make_thumb_path data_root (Path False [''a.png''])" by code_simp
  then have tgt: "a_thumb = make_thumb_path data_root (Path False [''a.png'']) \<or>
             a_thumb = make_display_path data_root (Path False [''a.png''])" by (rule disjI1)
  have canon: "resolve posix a_thumb = a_thumb" by code_simp
  have rel: "\<not> is_absolute (Path False [''a.png''])" "well_formed (Path False [''a.png''])"
    by (simp_all add: well_formed_def)
  have built: "build_resized posix pil_ok fs_cat a_png a_thumb 360 82 = (True, fs_thumbed)"
    by code_simp
  have run: "load_items posix fs_thumbed data_root None None () =
     (Inr [make_item a_png (Path False [''a.png'']) ''a cat outside''
            (empty_tags\<lparr>general := JArr [JStr ''cat'', JStr ''outdoor'']\<rparr>),
          make_item a_thumb (Path False [''.thumbs'', ''a.png.thumb.jpg'']) [] empty_tags], ())"
    by code_simp
  from scan_after_derivative_emits_cache_file [OF canon_root tgt canon rel built run] built run
  show ?thesis by blast
qed

subsection \<open>Manifest rows\<close>

lemma manifest_row_emits_existing_inside:
  assumes "manifest_row pf fs root line = Inr (Some it)"
  shows "\<exists>p rel. safe_relative pf root p = Some rel \<and> path_exists pf fs p \<and>
           name it = path_name p \<and> image_url it = to_file_url rel"
  using assms
  by (auto simp: manifest_row_def Let_def make_item_def
      split: if_splits option.splits json.splits sum.splits) blast+

text \<open>
  C4. An item of a manifest row refers to a path that exists and whose canonical form is
  the root or lies below it (lemma \<open>manifest_row_emits_existing_inside\<close>). The claim asks
  for a regular file, and there the code falls short: the row is kept when
  \<^verbatim>\<open>img_path.exists()\<close> holds, which is true of a directory. A row that names a
  directory, and a row without \<^verbatim>\<open>image_path\<close> (the default \<^verbatim>\<open>""\<close> is the root
  itself), both come out as items.
\<close>

theorem manifest_row_directory_is_emitted:
  "load_items posix fs_manifest data_root (Some (Path True [''data'', ''dir_image.jsonl''])) None () =
     (Inr [make_item (Path True [''data'']) (Path False []) ''a cat'' empty_tags,
           make_item (Path True [''data'', ''notes'']) (Path False [''notes'']) ''a cat'' empty_tags], ()) \<and>
   map_of fs_manifest (Path True [''data'', ''notes'']) = Some Dir \<and>
   map_of fs_manifest (Path True [''data'']) = Some Dir \<and>
   image_url (make_item (Path True [''data'', ''notes'']) (Path False [''notes'']) ''a cat'' empty_tags) =
     ''/files/notes'' \<and>
   image_url (make_item (Path True [''data'']) (Path False []) ''a cat'' empty_tags) = ''/files/.''"
  by code_simp

text \<open>
  C5. The caption path of a row is joined to the root and read when it exists; unlike the
  image path it is never passed through \<open>safe_relative\<close>, and the read is not guarded. So
  a caption path that leaves the root is read and becomes the caption, and a caption path
  that exists but cannot be read as text (here a directory) aborts the whole build.
\<close>

theorem manifest_caption_outside_root_or_unreadable:
  "load_items posix fs_manifest data_root (Some (Path True [''data'', ''outside.jsonl''])) None () =
     (Inr [make_item (Path True [''data'', ''a.png'']) (Path False [''a.png'']) ''secret'' empty_tags], ()) \<and>
   safe_relative posix data_root (joinpath data_root (Path_of ''../secret.txt'')) = None \<and>
   read_text posix fs_manifest (joinpath data_root (Path_of ''../secret.txt'')) = Inr ''secret'' \<and>
   load_items posix fs_manifest data_root (Some (Path True [''data'', ''dir_caption.jsonl''])) None () =
     (Inl IsADirectoryError, ())"
  by code_simp

subsection \<open>Side-car tags\<close>

lemma sidecar_tags_missing:
  "\<not> path_exists pf fs json_path \<Longrightarrow> sidecar_tags pf fs json_path = Inr empty_tags"
  by (simp add: sidecar_tags_def)

lemma sidecar_tags_malformed:
  "read_text pf fs json_path = Inr text \<Longrightarrow> json_loads pf text = None \<Longrightarrow>
     sidecar_tags pf fs json_path = Inr empty_tags"
  by (simp add: sidecar_tags_def)

text \<open>
  C7. A missing side-car and a side-car that is not JSON give four empty tag slots (the
  two lemmas above). A side-car that is JSON but has a value of the wrong type does not:
  \<^verbatim>\<open>split_tags\<close> calls \<^verbatim>\<open>split\<close> on the value, the \<^verbatim>\<open>AttributeError\<close> is not a
  \<^verbatim>\<open>JSONDecodeError\<close>, and the build ends without an index.
\<close>

theorem sidecar_wrong_type_aborts_build:
  "load_items posix fs_wrong_type data_root None None () = (Inl AttributeError, ()) \<and>
   build_items posix fs_wrong_type data_root None new_store = (Some AttributeError, new_store) \<and>
   json_loads posix meta_wrong_type = Some (JObj [(''tag_string_artist'', JInt 5)])"
  by code_simp

end
